theory Spec2Isabelle
  imports Complex_Main
begin

section \<open>The ingestion gateway: \<open>DifyClient.upload_file\<close> (dify\_client.py)\<close>

text \<open>
  One pass of the retry loop posts the file and looks at what comes back. What comes back
  is decided by the network and the remote service, so it is an input of the model: the
  \<open>gateway\<close> maps the attempt number to the result of that attempt.
  \<^item> \<open>Raises\<close>: the body of the \<open>try\<close> raised before a response was read (the file could
    not be opened, the connection failed, the 60 second timeout expired).
  \<^item> \<open>Response code body\<close>: a response with this status code arrived; \<open>body\<close> is what
    \<open>response.json()\<close> and \<open>result.get("id")\<close> make of it: \<open>Malformed\<close> when one of them
    raises, \<open>Object v\<close> when the body is a JSON object whose \<open>"id"\<close> is \<open>v\<close> (\<open>None\<close> when the
    key is missing).
\<close>

datatype json = Malformed | Object "string option"

datatype attempt_result = Raises | Response int json

text \<open>
  \<open>for attempt in range(retries)\<close>, with the loop variable as an argument. The result is
  the value \<open>upload_file\<close> returns (\<open>None\<close> or the document id) together with the number
  of passes through the loop body, which the source does not return but its callers'
  contract speaks about. The two sleeps of the source only pass time.
\<close>

function attempt_loop :: "(int \<Rightarrow> attempt_result) \<Rightarrow> int \<Rightarrow> int \<Rightarrow> string option \<times> int" where
  "attempt_loop gateway retries attempt =
     (if attempt < retries then
        (case gateway attempt of
           Response status_code body \<Rightarrow>
             if status_code \<noteq> 200 then
               (if attempt = retries - 1 then (None, attempt + 1)
                else attempt_loop gateway retries (attempt + 1))
             else
               (case body of
                  Object ident \<Rightarrow> (ident, attempt + 1)
                | Malformed \<Rightarrow>
                    if attempt = retries - 1 then (None, attempt + 1)
                    else attempt_loop gateway retries (attempt + 1))
         | Raises \<Rightarrow>
             if attempt = retries - 1 then (None, attempt + 1)
             else attempt_loop gateway retries (attempt + 1))
      else (None, attempt))"
  by pat_completeness auto
termination
  by (relation "measure (\<lambda>(gateway, retries, attempt). nat (retries - attempt))") auto

declare attempt_loop.simps [simp del]

definition upload_file :: "(int \<Rightarrow> attempt_result) \<Rightarrow> int \<Rightarrow> string option \<times> int" where
  "upload_file gateway retries = attempt_loop gateway retries 0"

text \<open>An attempt fails when it does not end in a status 200 response that can be read.\<close>

fun failed :: "attempt_result \<Rightarrow> bool" where
  "failed Raises = True"
| "failed (Response status_code body) = (status_code \<noteq> 200 \<or> body = Malformed)"

section \<open>Data model (database.py)\<close>

text \<open>
  A row of \<open>processed_files\<close> and a row of \<open>notification_channels\<close>. The surrogate key
  and the \<open>processed_at\<close> default of \<open>ProcessedFile\<close> are left out: no operation of the
  application reads them. The surrogate key of \<open>NotificationChannel\<close> is kept, since the
  renewal replaces \<open>channel_id\<close> in place and the key is what identifies the row then.
  Timestamps of channels are integers (milliseconds since the epoch, the unit of the
  provider's \<open>expiration\<close>). The conversion to \<open>datetime\<close> is not modelled: the source stores
  the local-time reading of the provider's instant and compares it with \<open>utcnow()\<close>, and
  the shift between the two by the offset of the process's time zone is left out.
\<close>

record ProcessedFile =
  pf_file_id :: string
  pf_file_name :: string

record NotificationChannel =
  nc_id :: nat
  nc_channel_id :: string
  nc_folder_id :: string
  nc_expiration :: int

section \<open>The state of the process and of its stores\<close>

text \<open>
  What a file of the temporary directory holds: the whole of a Drive file, or what had
  been written of it when the download failed.
\<close>

datatype content = Complete string | Partial string

text \<open>
  The module-level variables of main.py (\<open>processing_files\<close>, \<open>LAST_CHECK_TIME\<close>), the two
  tables, the temporary directory, and two logs of the calls made to the outside:
  \<open>upload_calls\<close> has one entry (file id, returned value) per call of \<open>upload_file\<close> by the
  pipeline, \<open>list_calls\<close> one entry (the folder) per call of \<open>list_new_files\<close>.
  \<open>time()\<close> is a float in the source and a real here.
\<close>

record app =
  processing_files :: "string set"
  LAST_CHECK_TIME :: "string \<rightharpoonup> real"
  processed_files :: "ProcessedFile list"
  notification_channels :: "NotificationChannel list"
  temp_files :: "string \<rightharpoonup> content"
  upload_calls :: "(string \<times> string option) list"
  list_calls :: "string list"

text \<open>Truthiness of an \<open>Optional[str]\<close>: \<open>not x\<close> holds for \<open>None\<close> and for the empty string.\<close>

definition falsy :: "string option \<Rightarrow> bool" where
  "falsy x = (x = None \<or> x = Some [])"

section \<open>The storage provider gateway (google\_drive.py)\<close>

text \<open>
  \<open>download_file\<close> never raises: it returns \<open>False\<close> on any exception. The destination is
  opened for writing before the first chunk is read, so a download that fails after the
  \<open>open\<close> leaves a file behind; one that fails before it leaves the directory as it was.
\<close>

datatype download_result = Downloaded | FailedBeforeOpen | FailedAfterOpen

definition download_file :: "download_result \<Rightarrow> string \<Rightarrow> string \<Rightarrow> app \<Rightarrow> bool \<times> app" where
  "download_file r file_id destination_path s =
     (case r of
        Downloaded \<Rightarrow>
          (True, s\<lparr>temp_files := (temp_files s)(destination_path \<mapsto> Complete file_id)\<rparr>)
      | FailedAfterOpen \<Rightarrow>
          (False, s\<lparr>temp_files := (temp_files s)(destination_path \<mapsto> Partial file_id)\<rparr>)
      | FailedBeforeOpen \<Rightarrow> (False, s))"

text \<open>
  What the provider answers while a watch is set up: whether \<open>files().get\<close> finds the
  folder, and the \<open>id\<close> and \<open>expiration\<close> of the response to \<open>files().watch\<close> (\<open>None\<close> when
  the call raises or the response lacks one of them). \<open>service_ready\<close> is the truth value
  of \<open>drive_service and drive_service.service\<close>.
\<close>

record drive_api =
  service_ready :: bool
  folder_accessible :: bool
  watch :: "(string \<times> int) option"

record channel_dict =
  channel_id :: string
  folder_id :: string
  expiration :: int

definition setup_watch :: "drive_api \<Rightarrow> string \<Rightarrow> string + channel_dict" where
  "setup_watch api folder =
     (if folder_accessible api then
        (case watch api of
           None \<Rightarrow> Inl ''watch request failed''
         | Some (ident, expires) \<Rightarrow>
             Inr \<lparr>channel_id = ident, folder_id = folder, expiration = expires\<rparr>)
      else Inl ''Cannot access folder'')"

section \<open>The file processing pipeline: \<open>process_file\<close> (main.py)\<close>

text \<open>
  \<open>settings.TEMP_DOWNLOAD_PATH / file_name\<close>, with the default of config.py. Joining an
  absolute name to a path gives the name itself. The normal form that pathlib gives to a
  path (\<open>./temp\<close> is \<open>temp\<close>, repeated separators collapse) is not modelled.
\<close>

definition TEMP_DOWNLOAD_PATH :: string where
  "TEMP_DOWNLOAD_PATH = ''temp''"

definition temp_path_of :: "string \<Rightarrow> string" where
  "temp_path_of file_name =
     (if take 1 file_name = ''/'' then file_name else TEMP_DOWNLOAD_PATH @ ''/'' @ file_name)"

text \<open>
  What the outside does during one run of the pipeline: whether the query for an existing
  row raises, how the download ends, what the ingestion service answers to each upload
  attempt, whether \<open>db.commit()\<close> succeeds (it raises when the store is unavailable or a
  constraint is violated), and whether \<open>unlink\<close> succeeds.
\<close>

record run_env =
  query_raises :: bool
  download :: download_result
  dify :: "int \<Rightarrow> attempt_result"
  commit_ok :: bool
  unlink_ok :: bool

text \<open>
  The \<open>finally\<close> block: \<open>remove\<close> with \<open>KeyError\<close> swallowed is set difference; the file is
  unlinked when it exists, and a failure to unlink is printed and swallowed.
\<close>

definition cleanup :: "run_env \<Rightarrow> string \<Rightarrow> string \<Rightarrow> app \<Rightarrow> app" where
  "cleanup e file_id file_name s =
     (let s1 = s\<lparr>processing_files := processing_files s - {file_id}\<rparr>;
          temp_path = temp_path_of file_name
      in if temp_files s1 temp_path = None then s1
         else if unlink_ok e then s1\<lparr>temp_files := (temp_files s1)(temp_path := None)\<rparr>
         else s1)"

text \<open>
  The coroutine gives up control at \<open>await asyncio.sleep(2)\<close> and inside
  \<open>await dify_client.upload_file(temp_path)\<close>; \<open>download_file\<close> has no \<open>await\<close> of its own
  and runs through. The body is therefore three blocks, each run without interruption, and
  a program counter says where a suspended run resumes. Every \<open>return\<close> and the \<open>except\<close>
  branch pass through \<open>cleanup\<close>. The attempts of an upload change nothing that another
  run can see, so the whole upload is placed at the moment its last response arrives.
\<close>

datatype pc = Start | Sleeping | Uploading | Done

definition before_sleep :: "run_env \<Rightarrow> string \<Rightarrow> string \<Rightarrow> app \<Rightarrow> pc \<times> app" where
  "before_sleep e file_id file_name s =
     (if file_id \<in> processing_files s then (Done, cleanup e file_id file_name s)
      else
        (let s1 = s\<lparr>processing_files := insert file_id (processing_files s)\<rparr>
         in if query_raises e then (Done, cleanup e file_id file_name s1)
            else
              (case find (\<lambda>r. pf_file_id r = file_id) (processed_files s1) of
                 Some existing \<Rightarrow> (Done, cleanup e file_id file_name s1)
               | None \<Rightarrow> (Sleeping, s1))))"

definition before_upload :: "run_env \<Rightarrow> string \<Rightarrow> string \<Rightarrow> app \<Rightarrow> pc \<times> app" where
  "before_upload e file_id file_name s =
     (case download_file (download e) file_id (temp_path_of file_name) s of
        (success, s1) \<Rightarrow>
          if success then (Uploading, s1) else (Done, cleanup e file_id file_name s1))"

definition after_upload :: "run_env \<Rightarrow> string \<Rightarrow> string \<Rightarrow> app \<Rightarrow> pc \<times> app" where
  "after_upload e file_id file_name s =
     (let document_id = fst (upload_file (dify e) 3);
          s1 = s\<lparr>upload_calls := upload_calls s @ [(file_id, document_id)]\<rparr>
      in if falsy document_id then (Done, cleanup e file_id file_name s1)
         else if commit_ok e then
           (Done, cleanup e file_id file_name
              (s1\<lparr>processed_files := processed_files s1 @
                    [\<lparr>pf_file_id = file_id, pf_file_name = file_name\<rparr>]\<rparr>))
         else (Done, cleanup e file_id file_name s1))"

fun resume :: "run_env \<times> string \<times> string \<Rightarrow> pc \<Rightarrow> app \<Rightarrow> pc \<times> app" where
  "resume (e, file_id, file_name) Start s = before_sleep e file_id file_name s"
| "resume (e, file_id, file_name) Sleeping s = before_upload e file_id file_name s"
| "resume (e, file_id, file_name) Uploading s = after_upload e file_id file_name s"
| "resume (e, file_id, file_name) Done s = (Done, s)"

text \<open>A run on its own: the three blocks one after the other.\<close>

definition process_file :: "run_env \<Rightarrow> string \<Rightarrow> string \<Rightarrow> app \<Rightarrow> app" where
  "process_file e file_id file_name s =
     (case resume (e, file_id, file_name) Start s of
        (p1, s1) \<Rightarrow>
          (case resume (e, file_id, file_name) p1 s1 of
             (p2, s2) \<Rightarrow> snd (resume (e, file_id, file_name) p2 s2)))"

text \<open>
  Two runs on one event loop. The schedule says which of them is resumed next (\<open>True\<close> for
  the first); resuming a run that has ended changes nothing.
\<close>

fun interleave ::
  "run_env \<times> string \<times> string \<Rightarrow> run_env \<times> string \<times> string \<Rightarrow> bool list \<Rightarrow>
   pc \<times> pc \<times> app \<Rightarrow> pc \<times> pc \<times> app" where
  "interleave a b [] c = c"
| "interleave a b (first # schedule) (pa, pb, s) =
     (if first then
        (case resume a pa s of (pa', s') \<Rightarrow> interleave a b schedule (pa', pb, s'))
      else
        (case resume b pb s of (pb', s') \<Rightarrow> interleave a b schedule (pa, pb', s')))"

text \<open>The rows of a file id, and the calls of \<open>upload_file\<close> for it that returned an id.\<close>

definition rows_of :: "string \<Rightarrow> app \<Rightarrow> nat" where
  "rows_of file_id s = length (filter (\<lambda>r. pf_file_id r = file_id) (processed_files s))"

definition uploads_of :: "string \<Rightarrow> app \<Rightarrow> nat" where
  "uploads_of file_id s =
     length (filter (\<lambda>c. fst c = file_id \<and> \<not> falsy (snd c)) (upload_calls s))"

text \<open>
  What two runs for one file id keep true between them. A run is in flight between its
  first block and its end. While one run is in flight there is no row for the file id, the
  other run is not in flight, and if the other run has not started the file id is in the
  in-flight set (so that its first block will end it). \<open>accounted\<close> says that, since the
  state \<open>s0\<close>, every upload call for the file id that returned an id has been followed by
  the insertion of its row.
\<close>

definition in_flight :: "pc \<Rightarrow> bool" where
  "in_flight p = (p = Sleeping \<or> p = Uploading)"

definition exclusive :: "string \<Rightarrow> pc \<times> pc \<times> app \<Rightarrow> bool" where
  "exclusive file_id c =
     (case c of (pa, pb, s) \<Rightarrow>
        rows_of file_id s \<le> 1 \<and>
        (in_flight pa \<longrightarrow>
           rows_of file_id s = 0 \<and> \<not> in_flight pb \<and>
           (pb = Start \<longrightarrow> file_id \<in> processing_files s)) \<and>
        (in_flight pb \<longrightarrow>
           rows_of file_id s = 0 \<and> \<not> in_flight pa \<and>
           (pa = Start \<longrightarrow> file_id \<in> processing_files s)))"

definition accounted :: "string \<Rightarrow> app \<Rightarrow> app \<Rightarrow> bool" where
  "accounted file_id s0 s \<longleftrightarrow>
     uploads_of file_id s + rows_of file_id s0 = uploads_of file_id s0 + rows_of file_id s"

text \<open>
  A run succeeds when its query, its download, its upload and its commit do. When both
  runs succeed, something is always still to come or already there: a row exists, or a run
  is in flight, or a run has not started and will find the in-flight set free of the file
  id.
\<close>

definition succeeds :: "run_env \<Rightarrow> bool" where
  "succeeds e =
     (\<not> query_raises e \<and> download e = Downloaded \<and>
      \<not> falsy (fst (upload_file (dify e) 3)) \<and> commit_ok e)"

definition progressing :: "string \<Rightarrow> pc \<times> pc \<times> app \<Rightarrow> bool" where
  "progressing file_id c =
     (case c of (pa, pb, s) \<Rightarrow>
        1 \<le> rows_of file_id s \<or> in_flight pa \<or> in_flight pb \<or>
        (pa = Start \<and> pb = Start) \<or>
        (pa = Start \<and> pb = Done \<and> file_id \<notin> processing_files s) \<or>
        (pa = Done \<and> pb = Start \<and> file_id \<notin> processing_files s))"

section \<open>The debounce gate and the notification intake: \<open>drive_webhook\<close> (main.py)\<close>

definition DEBOUNCE_INTERVAL :: real where
  "DEBOUNCE_INTERVAL = 5"

text \<open>
  The gate is written inline in the handler: \<open>LAST_CHECK_TIME.get(folder, 0)\<close>, the
  comparison, and the assignment that is reached only when the comparison lets the
  notification through. The result is the verdict and the table afterwards.
\<close>

definition debounce :: "string \<Rightarrow> real \<Rightarrow> (string \<rightharpoonup> real) \<Rightarrow> bool \<times> (string \<rightharpoonup> real)" where
  "debounce folder current_time table =
     (let last_check = (case table folder of None \<Rightarrow> 0 | Some t \<Rightarrow> t)
      in if current_time - last_check < DEBOUNCE_INTERVAL then (False, table)
         else (True, table(folder \<mapsto> current_time)))"

text \<open>
  An entry of the listing is a dictionary; \<open>f['id']\<close> and \<open>f['name']\<close> raise \<open>KeyError\<close> when
  the key is missing.
\<close>

record drive_file =
  f_id :: "string option"
  f_name :: "string option"

text \<open>
  \<open>[f for f in new_files if f['id'] not in processed_ids]\<close>; \<open>None\<close> when the comprehension
  raises.
\<close>

fun unprocessed :: "drive_file list \<Rightarrow> string set \<Rightarrow> drive_file list option" where
  "unprocessed [] processed_ids = Some []"
| "unprocessed (f # fs) processed_ids =
     (case f_id f of
        None \<Rightarrow> None
      | Some i \<Rightarrow>
          (case unprocessed fs processed_ids of
             None \<Rightarrow> None
           | Some rest \<Rightarrow> Some (if i \<in> processed_ids then rest else f # rest)))"

text \<open>
  The loop over \<open>background_tasks.add_task\<close>, inside its \<open>try\<close>: the tasks queued so far,
  and whether the loop came to its end (an exception leaves it at the entry that raised).
\<close>

fun add_tasks :: "drive_file list \<Rightarrow> (string \<times> string) list \<Rightarrow> bool \<times> (string \<times> string) list" where
  "add_tasks [] tasks = (True, tasks)"
| "add_tasks (f # fs) tasks =
     (case f_id f of
        None \<Rightarrow> (False, tasks)
      | Some i \<Rightarrow>
          (case f_name f of
             None \<Rightarrow> (False, tasks)
           | Some n \<Rightarrow> add_tasks fs (tasks @ [(i, n)])))"

text \<open>
  The handler either returns a \<open>JSONResponse\<close> or raises: an \<open>HTTPException\<close> with its
  status, or an exception that nothing catches (which the framework answers with status
  500). The content of a response is its \<open>status\<close> string and, for \<open>processing\<close>, the
  number of files.
\<close>

datatype exn = HTTPException nat string | Unhandled

record response =
  status_code :: nat
  status :: string
  files :: "nat option"

text \<open>
  What the outside does during one call of the handler: whether the channel query raises,
  the value of \<open>time()\<close>, the listing (\<open>None\<close> when \<open>list_new_files\<close> raises), and whether
  the query for the processed ids raises.
\<close>

record webhook_env =
  lookup_raises :: bool
  now :: real
  listing :: "drive_file list option"
  scan_raises :: bool

text \<open>
  The result is what the handler returns or raises, the tasks it has put into
  \<open>background_tasks\<close>, and the state afterwards.
\<close>

definition drive_webhook ::
  "webhook_env \<Rightarrow> string option \<Rightarrow> string option \<Rightarrow> app \<Rightarrow>
   (exn + response) \<times> (string \<times> string) list \<times> app" where
  "drive_webhook e x_goog_channel_id x_goog_resource_state s =
     (if falsy x_goog_channel_id \<or> falsy x_goog_resource_state then
        (Inl (HTTPException 400 ''Missing required headers''), [], s)
      else if x_goog_resource_state = Some ''sync'' then
        (Inr \<lparr>status_code = 200, status = ''sync acknowledged'', files = None\<rparr>, [], s)
      else if x_goog_resource_state = Some ''trash'' then
        (Inr \<lparr>status_code = 200, status = ''trash ignored'', files = None\<rparr>, [], s)
      else if lookup_raises e then
        (Inr \<lparr>status_code = 200, status = ''error'', files = None\<rparr>, [], s)
      else
        (case find (\<lambda>c. Some (nc_channel_id c) = x_goog_channel_id) (notification_channels s) of
           None \<Rightarrow> (Inr \<lparr>status_code = 200, status = ''ignored'', files = None\<rparr>, [], s)
         | Some channel \<Rightarrow>
             (case debounce (nc_folder_id channel) (now e) (LAST_CHECK_TIME s) of
                (False, table) \<Rightarrow>
                  (Inr \<lparr>status_code = 200, status = ''debounced'', files = None\<rparr>, [], s)
              | (True, table) \<Rightarrow>
                  (let s1 = s\<lparr>LAST_CHECK_TIME := table,
                               list_calls := list_calls s @ [nc_folder_id channel]\<rparr>
                   in case listing e of
                        None \<Rightarrow> (Inl Unhandled, [], s1)
                      | Some new_files \<Rightarrow>
                          if scan_raises e then (Inl Unhandled, [], s1)
                          else
                            (case unprocessed new_files (set (map pf_file_id (processed_files s1))) of
                               None \<Rightarrow> (Inl Unhandled, [], s1)
                             | Some new_files' \<Rightarrow>
                                 (case add_tasks new_files' [] of
                                    (True, tasks) \<Rightarrow>
                                      (Inr \<lparr>status_code = 200, status = ''processing'',
                                            files = Some (length new_files')\<rparr>, tasks, s1)
                                  | (False, tasks) \<Rightarrow>
                                      (Inr \<lparr>status_code = 200, status = ''error'', files = None\<rparr>,
                                       tasks, s1)))))))"

text \<open>The status that reaches the caller.\<close>

fun http_status :: "exn + response \<Rightarrow> nat" where
  "http_status (Inr r) = status_code r"
| "http_status (Inl (HTTPException code detail)) = code"
| "http_status (Inl Unhandled) = 500"

section \<open>The setup operation: \<open>setup_monitoring\<close> (main.py)\<close>

text \<open>The key that the store gives to a new row: one more than the largest in use.\<close>

definition next_id :: "NotificationChannel list \<Rightarrow> nat" where
  "next_id table = Suc (fold max (map nc_id table) 0)"

definition channel_row :: "nat \<Rightarrow> channel_dict \<Rightarrow> NotificationChannel" where
  "channel_row k channel =
     \<lparr>nc_id = k, nc_channel_id = channel_id channel, nc_folder_id = folder_id channel,
      nc_expiration = expiration channel\<rparr>"

text \<open>
  Every exception of the \<open>try\<close> block ends in \<open>db.rollback()\<close> and an \<open>HTTPException\<close> with
  status 500 whose detail is the message of the exception (a fixed text stands for a
  message that a library writes). \<open>store_ok\<close> says whether \<open>db.commit()\<close> succeeds.
\<close>

definition setup_monitoring ::
  "drive_api \<Rightarrow> bool \<Rightarrow> string \<Rightarrow> app \<Rightarrow> (exn + string \<times> channel_dict) \<times> app" where
  "setup_monitoring api store_ok folder s =
     (if service_ready api then
        (case setup_watch api folder of
           Inl message \<Rightarrow> (Inl (HTTPException 500 message), s)
         | Inr channel \<Rightarrow>
             if store_ok then
               (Inr (''Monitoring setup successfully'', channel),
                s\<lparr>notification_channels := notification_channels s @
                     [channel_row (next_id (notification_channels s)) channel]\<rparr>)
             else (Inl (HTTPException 500 ''commit failed''), s))
      else (Inl (HTTPException 500 ''Google Drive service not properly initialized''), s))"

section \<open>The channel renewal loop: \<open>renew_channels\<close> (scheduler.py)\<close>

text \<open>
  What the outside does during one run: the value of \<open>datetime.utcnow()\<close>, whether the
  service object and the query for the expiring channels come about (if not, the
  exception leaves the function before the loop), and, for the row with a given key, what
  the provider answers to its re-registration and whether its \<open>db.commit()\<close> succeeds.
  \<open>stop_watch\<close> returns a truth value that the loop ignores, and never raises.
\<close>

record renew_env =
  utcnow :: int
  query_ok :: bool
  provider :: "nat \<Rightarrow> drive_api"
  store :: "nat \<Rightarrow> bool"

definition six_hours :: int where
  "six_hours = 6 * 60 * 60 * 1000"

definition expiring :: "int \<Rightarrow> NotificationChannel list \<Rightarrow> NotificationChannel list" where
  "expiring utc table = filter (\<lambda>c. nc_expiration c \<le> utc + six_hours) table"

definition renewed :: "channel_dict \<Rightarrow> NotificationChannel \<Rightarrow> NotificationChannel" where
  "renewed new_channel channel =
     channel\<lparr>nc_channel_id := channel_id new_channel, nc_expiration := expiration new_channel\<rparr>"

text \<open>
  The body of the loop for one channel, and whether the loop goes on after it. An
  exception of \<open>setup_watch\<close> is caught inside the loop, printed, and followed by
  \<open>db.rollback()\<close>; nothing had been changed, and the loop goes on. When \<open>db.commit()\<close>
  raises, the same \<open>except\<close> branch builds its message from \<open>channel.channel_id\<close> before it
  reaches \<open>db.rollback()\<close>: the session, whose flush has failed, refuses to load the
  attribute (\<open>PendingRollbackError\<close>), and this second exception leaves the \<open>except\<close> branch,
  the loop and the function. The failed commit has written nothing, so the table is the
  one before this channel. The row that the object stands for is the one with its key.
\<close>

definition renew_one :: "renew_env \<Rightarrow> NotificationChannel \<Rightarrow> NotificationChannel list \<Rightarrow> bool \<times> NotificationChannel list" where
  "renew_one e channel table =
     (case setup_watch (provider e (nc_id channel)) (nc_folder_id channel) of
        Inl message \<Rightarrow> (True, table)
      | Inr new_channel \<Rightarrow>
          if store e (nc_id channel) then
            (True, map (\<lambda>r. if nc_id r = nc_id channel then renewed new_channel r else r) table)
          else (False, table))"

fun renew_loop :: "renew_env \<Rightarrow> NotificationChannel list \<Rightarrow> NotificationChannel list \<Rightarrow> NotificationChannel list" where
  "renew_loop e [] table = table"
| "renew_loop e (channel # channels) table =
     (case renew_one e channel table of
        (go_on, table') \<Rightarrow> if go_on then renew_loop e channels table' else table')"

definition renew_channels :: "renew_env \<Rightarrow> app \<Rightarrow> app" where
  "renew_channels e s =
     (if query_ok e then
        s\<lparr>notification_channels :=
            renew_loop e (expiring (utcnow e) (notification_channels s)) (notification_channels s)\<rparr>
      else s)"

text \<open>
  What a run is to make of one expiring row, in the words of the specification: the row
  with \<open>channel_id\<close> and \<open>expiration\<close> replaced together when the re-registration and the
  store update succeed, and the row as it was when either fails.
\<close>

definition renewal :: "renew_env \<Rightarrow> NotificationChannel \<Rightarrow> NotificationChannel" where
  "renewal e channel =
     (case setup_watch (provider e (nc_id channel)) (nc_folder_id channel) of
        Inl message \<Rightarrow> channel
      | Inr new_channel \<Rightarrow>
          if store e (nc_id channel) then
            channel\<lparr>nc_channel_id := channel_id new_channel,
                    nc_expiration := expiration new_channel\<rparr>
          else channel)"

section \<open>States and environments of the examples\<close>

text \<open>
  A freshly started process with empty stores, the same with one watched folder, and a
  call of the handler during which nothing fails and the folder has no new file.
\<close>

definition initial :: app where
  "initial =
     \<lparr>processing_files = {}, LAST_CHECK_TIME = Map.empty, processed_files = [],
      notification_channels = [], temp_files = Map.empty, upload_calls = [], list_calls = []\<rparr>"

definition watched :: app where
  "watched = initial\<lparr>notification_channels :=
     [\<lparr>nc_id = 1, nc_channel_id = ''channel-1'', nc_folder_id = ''folder-1'', nc_expiration = 0\<rparr>]\<rparr>"

definition quiet :: webhook_env where
  "quiet = \<lparr>lookup_raises = False, now = 1000, listing = Some [], scan_raises = False\<rparr>"

text \<open>A run of the pipeline during which nothing fails, and one whose uploads are all refused.\<close>

definition calm :: run_env where
  "calm = \<lparr>query_raises = False, download = Downloaded,
            dify = (\<lambda>attempt. Response 200 (Object (Some ''doc-1''))),
            commit_ok = True, unlink_ok = True\<rparr>"

definition refusing :: run_env where
  "refusing = calm\<lparr>dify := (\<lambda>attempt. Response 503 Malformed)\<rparr>"

text \<open>A run of the pipeline whose download breaks off.\<close>

definition interrupted :: run_env where
  "interrupted = calm\<lparr>download := FailedAfterOpen\<rparr>"

text \<open>
  The state in which a run for \<open>file-1\<close> is in flight and has downloaded the file to its
  temporary path.
\<close>

definition busy :: app where
  "busy = initial\<lparr>processing_files := {''file-1''},
                  temp_files := [temp_path_of ''a.txt'' \<mapsto> Complete ''file-1'']\<rparr>"

text \<open>A provider that is reachable and grants the watch.\<close>

definition granting :: drive_api where
  "granting = \<lparr>service_ready = True, folder_accessible = True,
                watch = Some (''channel-2'', 604800000)\<rparr>"

text \<open>
  Three channels that expire within the threshold, and a renewal run in which the
  re-registration of the second one fails.
\<close>

definition three_channels :: app where
  "three_channels = initial\<lparr>notification_channels :=
     [\<lparr>nc_id = 1, nc_channel_id = ''channel-1'', nc_folder_id = ''folder-1'', nc_expiration = 0\<rparr>,
      \<lparr>nc_id = 2, nc_channel_id = ''channel-2'', nc_folder_id = ''folder-2'', nc_expiration = 0\<rparr>,
      \<lparr>nc_id = 3, nc_channel_id = ''channel-3'', nc_folder_id = ''folder-3'', nc_expiration = 0\<rparr>]\<rparr>"

definition second_fails :: renew_env where
  "second_fails =
     \<lparr>utcnow = 0, query_ok = True,
      provider = (\<lambda>k. \<lparr>service_ready = True, folder_accessible = True,
                        watch = (if k = 2 then None
                                 else Some (if k = 1 then ''channel-4'' else ''channel-5'',
                                            604800000))\<rparr>),
      store = (\<lambda>k. True)\<rparr>"

text \<open>
  A renewal run in which every re-registration is granted and the store update of the
  second channel fails.
\<close>

definition second_commit_fails :: renew_env where
  "second_commit_fails =
     \<lparr>utcnow = 0, query_ok = True,
      provider = (\<lambda>k. \<lparr>service_ready = True, folder_accessible = True,
                        watch = Some (if k = 1 then ''channel-4''
                                      else if k = 2 then ''channel-5'' else ''channel-6'',
                                      604800000)\<rparr>),
      store = (\<lambda>k. k \<noteq> 2)\<rparr>"

section \<open>Properties of the ingestion gateway\<close>

lemma attempt_loop_failed:
  "attempt < retries \<Longrightarrow> failed (gateway attempt) \<Longrightarrow>
   attempt_loop gateway retries attempt =
     (if attempt = retries - 1 then (None, attempt + 1)
      else attempt_loop gateway retries (attempt + 1))"
  by (subst attempt_loop.simps) (auto split: attempt_result.splits json.splits)

lemma attempt_loop_success:
  "attempt < retries \<Longrightarrow> gateway attempt = Response 200 (Object ident) \<Longrightarrow>
   attempt_loop gateway retries attempt = (ident, attempt + 1)"
  by (subst attempt_loop.simps) simp

lemma attempt_loop_count:
  "attempt \<le> retries \<Longrightarrow> snd (attempt_loop gateway retries attempt) \<le> retries"
proof (induction gateway retries attempt rule: attempt_loop.induct)
  case (1 gateway retries attempt)
  show ?case
  proof (cases "attempt < retries")
    case False
    with "1.prems" show ?thesis by (subst attempt_loop.simps) simp
  next
    case True
    show ?thesis
    proof (cases "failed (gateway attempt)")
      case f: True
      show ?thesis
      proof (cases "attempt = retries - 1")
        case True
        with f \<open>attempt < retries\<close> show ?thesis by (simp add: attempt_loop_failed)
      next
        case False
        with True have le: "attempt + 1 \<le> retries" by simp
        have "snd (attempt_loop gateway retries (attempt + 1)) \<le> retries"
        proof (cases "gateway attempt")
          case Raises
          with "1.IH" True False le show ?thesis by simp
        next
          case (Response status_code body)
          with "1.IH" True False le f show ?thesis
            by (cases "status_code = 200") auto
        qed
        with f True False show ?thesis by (simp add: attempt_loop_failed)
      qed
    next
      case False
      then obtain ident where "gateway attempt = Response 200 (Object ident)"
        by (cases "gateway attempt"; cases "case gateway attempt of Response c b \<Rightarrow> b")
           (auto split: attempt_result.splits)
      with True show ?thesis by (simp add: attempt_loop_success)
    qed
  qed
qed

lemma upload_file_at_most:
  "snd (upload_file gateway 3) \<le> 3"
  unfolding upload_file_def by (rule attempt_loop_count) simp

lemma upload_file_third_time:
  assumes "failed (gateway 0)" and "failed (gateway 1)"
    and "gateway 2 = Response 200 (Object ident)"
  shows "upload_file gateway 3 = (ident, 3)"
proof -
  have "attempt_loop gateway 3 0 = attempt_loop gateway 3 1"
    using assms(1) attempt_loop_failed [of 0 3 gateway] by simp
  also have "\<dots> = attempt_loop gateway 3 2"
    using assms(2) attempt_loop_failed [of 1 3 gateway] by simp
  also have "\<dots> = (ident, 3)"
    using assms(3) attempt_loop_success [of 2 3 gateway ident] by simp
  finally show ?thesis
    by (simp add: upload_file_def)
qed

lemma upload_file_exhausted:
  assumes "failed (gateway 0)" and "failed (gateway 1)" and "failed (gateway 2)"
  shows "upload_file gateway 3 = (None, 3)"
proof -
  have "attempt_loop gateway 3 0 = attempt_loop gateway 3 1"
    using assms(1) attempt_loop_failed [of 0 3 gateway] by simp
  also have "\<dots> = attempt_loop gateway 3 2"
    using assms(2) attempt_loop_failed [of 1 3 gateway] by simp
  also have "\<dots> = (None, 3)"
    using assms(3) attempt_loop_failed [of 2 3 gateway] by simp
  finally show ?thesis
    by (simp add: upload_file_def)
qed

lemma upload_file_first_time:
  "gateway 0 = Response 200 (Object ident) \<Longrightarrow> upload_file gateway 3 = (ident, 1)"
  using attempt_loop_success [of 0 3 gateway ident] by (simp add: upload_file_def)

text \<open>
  Claim C5. With \<open>retries = 3\<close> the upload makes at most three attempts, for every
  behaviour of the gateway. If the first two attempts fail and the third is answered with
  status 200 and a document id, the upload returns that id (after three attempts). If all
  three attempts fail, the upload returns \<open>None\<close> after exactly three attempts. The
  function is total and its result is an \<open>option\<close>: no failure of an attempt is passed on
  to the caller.
\<close>

theorem upload_file_retry_bound:
  "snd (upload_file gateway 3) \<le> 3 \<and>
   (failed (gateway 0) \<and> failed (gateway 1) \<and> gateway 2 = Response 200 (Object (Some doc))
      \<longrightarrow> upload_file gateway 3 = (Some doc, 3)) \<and>
   (failed (gateway 0) \<and> failed (gateway 1) \<and> failed (gateway 2)
      \<longrightarrow> upload_file gateway 3 = (None, 3))"
  by (simp add: upload_file_at_most upload_file_third_time upload_file_exhausted)

theorem upload_file_retry_bound_witness:
  "failed ((\<lambda>i::int. if i = 2 then Response 200 (Object (Some ''doc-1'')) else Raises) 0) \<and>
   failed ((\<lambda>i::int. if i = 2 then Response 200 (Object (Some ''doc-1'')) else Raises) 1) \<and>
   upload_file (\<lambda>i::int. if i = 2 then Response 200 (Object (Some ''doc-1'')) else Raises) 3
     = (Some ''doc-1'', 3) \<and>
   failed (Response 503 Malformed) \<and>
   upload_file (\<lambda>i. Response 503 Malformed) 3 = (None, 3)"
  using upload_file_retry_bound [of "\<lambda>i::int. if i = 2 then Response 200 (Object (Some ''doc-1'')) else Raises" "''doc-1''"]
    upload_file_retry_bound [of "\<lambda>i. Response 503 Malformed"]
  by simp

section \<open>Properties of the debounce gate\<close>

text \<open>
  Claim C4, as the code has it. The gate lets a notification through exactly when
  \<open>now - last_check \<ge> DEBOUNCE_INTERVAL\<close>, where \<open>last_check\<close> is the stored time of the
  folder and 0 when the folder has none; it stores \<open>now\<close> for the folder when it lets the
  notification through and leaves the table as it is otherwise. With the interval of 5
  and a first call at any \<open>t0 \<ge> 5\<close>, calls at \<open>t0\<close> and \<open>t0 + 4\<close> give (true, false), and
  calls at \<open>t0\<close> and \<open>t0 + 5\<close> give (true, true).
\<close>

theorem debounce_gate:
  "(fst (debounce folder t table) \<longleftrightarrow>
      DEBOUNCE_INTERVAL \<le> t - (case table folder of None \<Rightarrow> 0 | Some last_check \<Rightarrow> last_check)) \<and>
   snd (debounce folder t table) =
     (if fst (debounce folder t table) then table(folder \<mapsto> t) else table) \<and>
   (5 \<le> t0 \<longrightarrow>
      debounce folder t0 Map.empty = (True, [folder \<mapsto> t0]) \<and>
      debounce folder (t0 + 4) [folder \<mapsto> t0] = (False, [folder \<mapsto> t0]) \<and>
      debounce folder (t0 + 5) [folder \<mapsto> t0] = (True, [folder \<mapsto> t0 + 5]))"
  by (simp add: debounce_def DEBOUNCE_INTERVAL_def Let_def not_less)

theorem debounce_gate_witness:
  "(5::real) \<le> 100 \<and>
   debounce ''folder-1'' 100 Map.empty = (True, [''folder-1'' \<mapsto> 100]) \<and>
   debounce ''folder-1'' 104 [''folder-1'' \<mapsto> 100] = (False, [''folder-1'' \<mapsto> 100]) \<and>
   debounce ''folder-1'' 105 [''folder-1'' \<mapsto> 100] = (True, [''folder-1'' \<mapsto> 105])"
  using debounce_gate [of "''folder-1''" 100 Map.empty 100] by simp

text \<open>
  The claim as stated fails where no prior check exists and the clock is below the
  interval: the first call at \<open>t = 0\<close> is rejected, and so is a first call at \<open>t = 4\<close>.
\<close>

theorem debounce_first_call_counterexample:
  "Map.empty ''folder-1'' = (None :: real option) \<and>
   debounce ''folder-1'' 0 Map.empty = (False, Map.empty) \<and>
   debounce ''folder-1'' 4 Map.empty = (False, Map.empty)"
  by (simp add: debounce_def DEBOUNCE_INTERVAL_def)

section \<open>Properties of the notification intake\<close>

text \<open>
  Claim C1, evaluated where the code departs from it. Both headers are present, the
  channel is in the store and the gate lets the notification through; \<open>list_new_files\<close>
  raises. Nothing catches the exception, so the handler does not return a response with
  status 200: the caller gets the framework's status 500.
\<close>

theorem webhook_listing_failure:
  "drive_webhook (quiet\<lparr>listing := None\<rparr>) (Some ''channel-1'') (Some ''update'') watched
     = (Inl Unhandled, [],
        watched\<lparr>LAST_CHECK_TIME := [''folder-1'' \<mapsto> 1000], list_calls := [''folder-1'']\<rparr>) \<and>
   http_status (Inl Unhandled) = 500"
  by (simp add: drive_webhook_def falsy_def watched_def initial_def quiet_def debounce_def
      DEBOUNCE_INTERVAL_def)

text \<open>
  Claim C8, as the code has it. When both headers are present (and not empty), a
  notification whose state is \<open>sync\<close> or \<open>trash\<close>, or whose channel is not in the store, is
  answered with status 200, queues no task and leaves the state as it was: in particular
  no listing call is made. When a header is missing the handler raises the
  \<open>HTTPException\<close> with status 400, whatever the state is, and again makes no listing call
  and queues no task.
\<close>

theorem webhook_without_listing:
  "(\<not> falsy cid \<and> \<not> falsy st \<and>
    (st = Some ''sync'' \<or> st = Some ''trash'' \<or>
     find (\<lambda>c. Some (nc_channel_id c) = cid) (notification_channels s) = None)
    \<longrightarrow> (\<exists>r. drive_webhook e cid st s = (Inr r, [], s) \<and> status_code r = 200)) \<and>
   (falsy cid \<or> falsy st
    \<longrightarrow> drive_webhook e cid st s = (Inl (HTTPException 400 ''Missing required headers''), [], s))"
  by (auto simp: drive_webhook_def split: option.splits)

theorem webhook_without_listing_witness:
  "\<not> falsy (Some ''channel-1'') \<and> \<not> falsy (Some ''sync'') \<and>
   drive_webhook quiet (Some ''channel-1'') (Some ''sync'') watched
     = (Inr \<lparr>status_code = 200, status = ''sync acknowledged'', files = None\<rparr>, [], watched) \<and>
   find (\<lambda>c. Some (nc_channel_id c) = Some ''channel-9'') (notification_channels watched) = None \<and>
   drive_webhook quiet (Some ''channel-9'') (Some ''update'') watched
     = (Inr \<lparr>status_code = 200, status = ''ignored'', files = None\<rparr>, [], watched) \<and>
   falsy None \<and>
   drive_webhook quiet None (Some ''trash'') watched
     = (Inl (HTTPException 400 ''Missing required headers''), [], watched)"
  using webhook_without_listing [of "Some ''channel-1''" "Some ''sync''" watched quiet]
    webhook_without_listing [of "Some ''channel-9''" "Some ''update''" watched quiet]
    webhook_without_listing [of None "Some ''trash''" watched quiet]
  by (simp add: drive_webhook_def falsy_def watched_def initial_def quiet_def)

text \<open>
  The claim as stated fails for a notification whose state is \<open>sync\<close> and whose channel
  header is missing: the answer is status 400, not success.
\<close>

theorem webhook_sync_counterexample:
  "http_status (fst (drive_webhook quiet None (Some ''sync'') watched)) = 400"
  by (simp add: drive_webhook_def falsy_def)

section \<open>Properties of the file processing pipeline\<close>

lemma cleanup_processing [simp]:
  "processing_files (cleanup e file_id file_name s) = processing_files s - {file_id}"
  by (simp add: cleanup_def Let_def)

lemma cleanup_processed [simp]:
  "processed_files (cleanup e file_id file_name s) = processed_files s"
  by (simp add: cleanup_def Let_def)

lemma cleanup_uploads [simp]:
  "upload_calls (cleanup e file_id file_name s) = upload_calls s"
  by (simp add: cleanup_def Let_def)

lemma cleanup_temp [simp]:
  "temp_files (cleanup e file_id file_name s) =
     (if unlink_ok e then (temp_files s)(temp_path_of file_name := None) else temp_files s)"
  by (auto simp: cleanup_def Let_def)

lemma cleanup_others [simp]:
  "LAST_CHECK_TIME (cleanup e file_id file_name s) = LAST_CHECK_TIME s"
  "notification_channels (cleanup e file_id file_name s) = notification_channels s"
  "list_calls (cleanup e file_id file_name s) = list_calls s"
  by (simp_all add: cleanup_def Let_def)

lemma process_file_ends_in_cleanup:
  "\<exists>s'. process_file e file_id file_name s = cleanup e file_id file_name s'"
  by (auto simp: process_file_def before_sleep_def before_upload_def after_upload_def
      download_file_def Let_def split: option.splits download_result.splits)

lemma process_file_no_upload:
  "falsy (fst (upload_file (dify e) 3)) \<Longrightarrow>
   processed_files (process_file e file_id file_name s) = processed_files s"
  by (auto simp: process_file_def before_sleep_def before_upload_def after_upload_def
      download_file_def Let_def split: option.splits download_result.splits)

lemma process_file_fails_at_upload:
  assumes "file_id \<notin> processing_files s" and "\<not> query_raises e"
    and "find (\<lambda>r. pf_file_id r = file_id) (processed_files s) = None"
    and "download e = Downloaded" and "falsy (fst (upload_file (dify e) 3))"
  shows "process_file e file_id file_name s =
     s\<lparr>processing_files := processing_files s,
       temp_files := (if unlink_ok e then (temp_files s)(temp_path_of file_name := None)
                      else (temp_files s)(temp_path_of file_name \<mapsto> Complete file_id)),
       upload_calls := upload_calls s @ [(file_id, fst (upload_file (dify e) 3))]\<rparr>"
  using assms
  by (simp add: process_file_def before_sleep_def before_upload_def after_upload_def
      download_file_def Let_def cleanup_def)

lemma refusing_upload: "upload_file (dify refusing) 3 = (None, 3)"
  by (simp add: refusing_def upload_file_exhausted)

lemma refusing_fields:
  "\<not> query_raises refusing" "download refusing = Downloaded" "unlink_ok refusing"
  "\<not> query_raises (refusing\<lparr>unlink_ok := False\<rparr>)"
  "download (refusing\<lparr>unlink_ok := False\<rparr>) = Downloaded"
  "dify (refusing\<lparr>unlink_ok := False\<rparr>) = dify refusing"
  by (simp_all add: refusing_def calm_def)

text \<open>
  Claim C2, evaluated where the code departs from it. A run for \<open>file-1\<close> is in flight and
  has downloaded the file. A second call for the same file id finds the id in the in-flight
  set and returns, but the \<open>return\<close> sits inside the \<open>try\<close> and the \<open>finally\<close> block runs: it
  removes the entry that the first run added and deletes the first run's temporary file.
\<close>

theorem in_flight_duplicate:
  "''file-1'' \<in> processing_files busy \<and>
   temp_files busy (temp_path_of ''a.txt'') = Some (Complete ''file-1'') \<and>
   process_file calm ''file-1'' ''a.txt'' busy = initial"
  by (simp add: process_file_def before_sleep_def busy_def initial_def cleanup_def calm_def)

text \<open>
  Claim C6, as the code has it. On every path of a run that has passed the in-flight
  check, the file id is absent from the in-flight set afterwards, and the temporary file
  is gone unless deleting it fails (the failure is printed and swallowed, and the file
  stays). When the upload returns no document id, no row is inserted. The last part
  describes the run that fails at the upload step in full: the state afterwards differs
  from the state before only in the logged upload call and in the temporary file.
\<close>

theorem upload_failure_cleanup:
  "(file_id \<notin> processing_files s \<longrightarrow>
      file_id \<notin> processing_files (process_file e file_id file_name s) \<and>
      (unlink_ok e \<longrightarrow>
         temp_files (process_file e file_id file_name s) (temp_path_of file_name) = None)) \<and>
   (falsy (fst (upload_file (dify e) 3)) \<longrightarrow>
      processed_files (process_file e file_id file_name s) = processed_files s) \<and>
   (file_id \<notin> processing_files s \<and> \<not> query_raises e \<and>
    find (\<lambda>r. pf_file_id r = file_id) (processed_files s) = None \<and>
    download e = Downloaded \<and> falsy (fst (upload_file (dify e) 3)) \<longrightarrow>
      process_file e file_id file_name s =
        s\<lparr>processing_files := processing_files s,
          temp_files := (if unlink_ok e then (temp_files s)(temp_path_of file_name := None)
                         else (temp_files s)(temp_path_of file_name \<mapsto> Complete file_id)),
          upload_calls := upload_calls s @ [(file_id, fst (upload_file (dify e) 3))]\<rparr>)"
proof -
  obtain s' where s': "process_file e file_id file_name s = cleanup e file_id file_name s'"
    using process_file_ends_in_cleanup by blast
  have "file_id \<notin> processing_files (process_file e file_id file_name s)"
    by (simp add: s')
  moreover have "unlink_ok e \<longrightarrow>
      temp_files (process_file e file_id file_name s) (temp_path_of file_name) = None"
    by (simp add: s')
  ultimately show ?thesis
    using process_file_no_upload process_file_fails_at_upload by blast
qed

theorem upload_failure_cleanup_witness:
  "''file-1'' \<notin> processing_files initial \<and> \<not> query_raises refusing \<and>
   find (\<lambda>r. pf_file_id r = ''file-1'') (processed_files initial) = None \<and>
   download refusing = Downloaded \<and> falsy (fst (upload_file (dify refusing) 3)) \<and>
   unlink_ok refusing \<and>
   process_file refusing ''file-1'' ''a.txt'' initial =
     initial\<lparr>upload_calls := [(''file-1'', None)]\<rparr>"
  using upload_failure_cleanup [where file_id = "''file-1''" and e = refusing
      and file_name = "''a.txt''" and s = initial]
  by (simp add: refusing_upload refusing_fields falsy_def initial_def)

text \<open>
  The claim as stated fails when the upload returns no document id and the deletion of the
  temporary file fails: the file is still on disk after the run.
\<close>

theorem upload_failure_leaves_file_counterexample:
  "fst (upload_file (dify (refusing\<lparr>unlink_ok := False\<rparr>)) 3) = None \<and>
   temp_files (process_file (refusing\<lparr>unlink_ok := False\<rparr>) ''file-1'' ''a.txt'' initial)
     (temp_path_of ''a.txt'') = Some (Complete ''file-1'')"
  using process_file_fails_at_upload [of "''file-1''" initial "refusing\<lparr>unlink_ok := False\<rparr>" "''a.txt''"]
  by (simp add: refusing_upload refusing_fields falsy_def initial_def)

lemma before_sleep_fresh:
  "file_id \<notin> processing_files s \<Longrightarrow> \<not> query_raises e \<Longrightarrow>
   find (\<lambda>r. pf_file_id r = file_id) (processed_files s) = None \<Longrightarrow>
   before_sleep e file_id file_name s =
     (Sleeping, s\<lparr>processing_files := insert file_id (processing_files s)\<rparr>)"
  by (simp add: before_sleep_def)

lemma before_upload_downloaded:
  "download e = Downloaded \<Longrightarrow>
   before_upload e file_id file_name s =
     (Uploading, s\<lparr>temp_files := (temp_files s)(temp_path_of file_name \<mapsto> Complete file_id)\<rparr>)"
  by (simp add: before_upload_def download_file_def)

lemma after_upload_ends:
  "\<exists>s'. after_upload e file_id file_name s = (Done, cleanup e file_id file_name s')"
  by (auto simp: after_upload_def Let_def)

text \<open>
  Claim C10. The temporary path is a function of the file name alone. Two runs for
  different file ids and one file name therefore share it. When the first run has
  downloaded its file and waits for its upload, the download of the second run replaces
  the content of the file by that of the second file, and the cleanup of the second run
  deletes the file, while the first run is still uploading it.
\<close>

theorem shared_temp_path:
  assumes "fid1 \<noteq> fid2"
    and "fid1 \<notin> processing_files s" and "fid2 \<notin> processing_files s"
    and "find (\<lambda>r. pf_file_id r = fid1) (processed_files s) = None"
    and "find (\<lambda>r. pf_file_id r = fid2) (processed_files s) = None"
    and "\<not> query_raises e1" and "\<not> query_raises e2"
    and "download e1 = Downloaded" and "download e2 = Downloaded" and "unlink_ok e2"
  shows
   "(\<exists>s1. interleave (e1, fid1, name) (e2, fid2, name) [True, True] (Start, Start, s)
            = (Uploading, Start, s1) \<and>
          temp_files s1 (temp_path_of name) = Some (Complete fid1)) \<and>
    (\<exists>s2. interleave (e1, fid1, name) (e2, fid2, name) [True, True, False, False] (Start, Start, s)
            = (Uploading, Uploading, s2) \<and>
          temp_files s2 (temp_path_of name) = Some (Complete fid2)) \<and>
    (\<exists>s3. interleave (e1, fid1, name) (e2, fid2, name) [True, True, False, False, False]
              (Start, Start, s)
            = (Uploading, Done, s3) \<and>
          temp_files s3 (temp_path_of name) = None)"
proof -
  obtain s' where "after_upload e2 fid2 name
      (s\<lparr>processing_files := insert fid2 (insert fid1 (processing_files s)),
         temp_files := (temp_files s)(temp_path_of name \<mapsto> Complete fid2)\<rparr>)
      = (Done, cleanup e2 fid2 name s')"
    using after_upload_ends by blast
  with assms show ?thesis
    by (simp add: before_sleep_fresh before_upload_downloaded)
qed

theorem shared_temp_path_witness:
  "''file-1'' \<noteq> ''file-2'' \<and>
   ''file-1'' \<notin> processing_files initial \<and> ''file-2'' \<notin> processing_files initial \<and>
   download calm = Downloaded \<and> unlink_ok calm \<and>
   interleave (calm, ''file-1'', ''a.txt'') (calm, ''file-2'', ''a.txt'') [True, True]
       (Start, Start, initial)
     = (Uploading, Start,
        initial\<lparr>processing_files := {''file-1''},
                temp_files := [temp_path_of ''a.txt'' \<mapsto> Complete ''file-1'']\<rparr>) \<and>
   interleave (calm, ''file-1'', ''a.txt'') (calm, ''file-2'', ''a.txt'')
       [True, True, False, False] (Start, Start, initial)
     = (Uploading, Uploading,
        initial\<lparr>processing_files := {''file-2'', ''file-1''},
                temp_files := [temp_path_of ''a.txt'' \<mapsto> Complete ''file-2'']\<rparr>) \<and>
   interleave (calm, ''file-1'', ''a.txt'') (calm, ''file-2'', ''a.txt'')
       [True, True, False, False, False] (Start, Start, initial)
     = (Uploading, Done,
        initial\<lparr>processing_files := {''file-1''},
                processed_files := [\<lparr>pf_file_id = ''file-2'', pf_file_name = ''a.txt''\<rparr>],
                upload_calls := [(''file-2'', Some ''doc-1'')]\<rparr>)"
proof -
  have u: "upload_file (\<lambda>attempt. Response 200 (Object (Some ''doc-1''))) 3 = (Some ''doc-1'', 1)"
    by (simp add: upload_file_first_time)
  show ?thesis
    using shared_temp_path [of "''file-1''" "''file-2''" initial calm calm "''a.txt''"]
    by (simp add: before_sleep_def before_upload_def download_file_def after_upload_def u
        falsy_def cleanup_def Let_def calm_def initial_def)
qed

section \<open>Two runs of the pipeline for one file\<close>

lemma find_rows_of:
  "find (\<lambda>r. pf_file_id r = file_id) (processed_files s) = None \<longleftrightarrow> rows_of file_id s = 0"
  by (auto simp: rows_of_def find_None_iff filter_empty_conv)

lemma rows_of_cleanup [simp]: "rows_of f (cleanup e file_id file_name s) = rows_of f s"
  by (simp add: rows_of_def)

lemma uploads_of_cleanup [simp]: "uploads_of f (cleanup e file_id file_name s) = uploads_of f s"
  by (simp add: uploads_of_def)

lemma rows_of_update [simp]:
  "rows_of f (s\<lparr>processing_files := ps\<rparr>) = rows_of f s"
  "rows_of f (s\<lparr>temp_files := ts\<rparr>) = rows_of f s"
  "rows_of f (s\<lparr>upload_calls := us\<rparr>) = rows_of f s"
  by (simp_all add: rows_of_def)

lemma uploads_of_update [simp]:
  "uploads_of f (s\<lparr>processing_files := ps\<rparr>) = uploads_of f s"
  "uploads_of f (s\<lparr>temp_files := ts\<rparr>) = uploads_of f s"
  "uploads_of f (s\<lparr>processed_files := rs\<rparr>) = uploads_of f s"
  by (simp_all add: uploads_of_def)

lemma rows_of_processed [simp]:
  "rows_of f (s\<lparr>processed_files := rs\<rparr>) = length (filter (\<lambda>r. pf_file_id r = f) rs)"
  by (simp add: rows_of_def)

lemma rows_of_fold [simp]:
  "length (filter (\<lambda>r. pf_file_id r = f) (processed_files s)) = rows_of f s"
  by (simp add: rows_of_def)

lemma uploads_of_logged [simp]:
  "uploads_of f (s\<lparr>upload_calls := us\<rparr>) =
     length (filter (\<lambda>c. fst c = f \<and> \<not> falsy (snd c)) us)"
  by (simp add: uploads_of_def)

lemma uploads_of_fold [simp]:
  "length (filter (\<lambda>c. fst c = f \<and> \<not> falsy (snd c)) (upload_calls s)) = uploads_of f s"
  by (simp add: uploads_of_def)

lemma exclusive_swap: "exclusive file_id (pa, pb, s) = exclusive file_id (pb, pa, s)"
  by (auto simp: exclusive_def)

lemma before_sleep_exclusive:
  assumes "exclusive file_id (Start, pb, s)"
    and "before_sleep e file_id n s = (pa', s')"
  shows "exclusive file_id (pa', pb, s')"
proof (cases "file_id \<in> processing_files s")
  case True
  with assms show ?thesis
    by (auto simp: before_sleep_def exclusive_def in_flight_def)
next
  case False
  with assms(1) have idle: "\<not> in_flight pb"
    by (auto simp: exclusive_def)
  show ?thesis
  proof (cases "query_raises e")
    case True
    with False assms idle show ?thesis
      by (auto simp: before_sleep_def exclusive_def in_flight_def)
  next
    case q: False
    show ?thesis
    proof (cases "find (\<lambda>r. pf_file_id r = file_id) (processed_files s)")
      case None
      then have "rows_of file_id s = 0" by (simp add: find_rows_of)
      with None False q assms idle show ?thesis
        by (auto simp: before_sleep_def exclusive_def in_flight_def)
    next
      case (Some existing)
      with False q assms idle show ?thesis
        by (auto simp: before_sleep_def exclusive_def in_flight_def)
    qed
  qed
qed

lemma before_upload_exclusive:
  assumes "exclusive file_id (Sleeping, pb, s)"
    and "before_upload e file_id n s = (pa', s')"
  shows "exclusive file_id (pa', pb, s')"
  using assms
  by (auto simp: before_upload_def download_file_def exclusive_def in_flight_def
      split: download_result.splits)

lemma after_upload_exclusive:
  assumes "exclusive file_id (Uploading, pb, s)"
    and "after_upload e file_id n s = (pa', s')"
  shows "exclusive file_id (pa', pb, s')"
  using assms
  by (auto simp: after_upload_def Let_def exclusive_def in_flight_def
      split: if_splits)

lemma resume_exclusive:
  assumes "exclusive file_id (pa, pb, s)"
    and "resume (e, file_id, n) pa s = (pa', s')"
  shows "exclusive file_id (pa', pb, s')"
proof (cases pa)
  case Start
  with assms show ?thesis by (auto intro: before_sleep_exclusive)
next
  case Sleeping
  with assms show ?thesis by (auto intro: before_upload_exclusive)
next
  case Uploading
  with assms show ?thesis by (auto intro: after_upload_exclusive)
next
  case Done
  with assms show ?thesis by auto
qed

lemma resume_accounted:
  assumes "accounted file_id s0 s" and "commit_ok e"
    and "resume (e, file_id, n) p s = (p', s')"
  shows "accounted file_id s0 s'"
proof (cases p)
  case Start
  with assms show ?thesis
    by (auto simp: accounted_def before_sleep_def Let_def
        split: if_splits option.splits)
next
  case Sleeping
  with assms show ?thesis
    by (auto simp: accounted_def before_upload_def download_file_def
        split: download_result.splits)
next
  case Uploading
  with assms show ?thesis
    by (auto simp: accounted_def after_upload_def Let_def
        split: if_splits)
next
  case Done
  with assms show ?thesis by auto
qed

lemma interleave_exclusive:
  "exclusive file_id c \<Longrightarrow>
   exclusive file_id (interleave (ea, file_id, na) (eb, file_id, nb) schedule c)"
proof (induction schedule arbitrary: c)
  case Nil
  then show ?case by simp
next
  case (Cons first schedule)
  obtain pa pb s where c: "c = (pa, pb, s)" by (cases c) auto
  show ?case
  proof (cases first)
    case True
    obtain pa' s' where r: "resume (ea, file_id, na) pa s = (pa', s')" by force
    with Cons.prems c have "exclusive file_id (pa', pb, s')"
      using resume_exclusive by blast
    then have "exclusive file_id (interleave (ea, file_id, na) (eb, file_id, nb) schedule (pa', pb, s'))"
      by (rule Cons.IH)
    with True c r show ?thesis by simp
  next
    case False
    obtain pb' s' where r: "resume (eb, file_id, nb) pb s = (pb', s')" by force
    from Cons.prems c have "exclusive file_id (pb, pa, s)"
      by (simp add: exclusive_swap)
    with r have "exclusive file_id (pb', pa, s')"
      using resume_exclusive by blast
    then have "exclusive file_id (pa, pb', s')"
      by (simp add: exclusive_swap)
    then have "exclusive file_id (interleave (ea, file_id, na) (eb, file_id, nb) schedule (pa, pb', s'))"
      by (rule Cons.IH)
    with False c r show ?thesis by simp
  qed
qed

lemma interleave_accounted:
  "commit_ok ea \<Longrightarrow> commit_ok eb \<Longrightarrow> accounted file_id s0 (snd (snd c)) \<Longrightarrow>
   accounted file_id s0
     (snd (snd (interleave (ea, file_id, na) (eb, file_id, nb) schedule c)))"
proof (induction schedule arbitrary: c)
  case Nil
  then show ?case by simp
next
  case (Cons first schedule)
  obtain pa pb s where c: "c = (pa, pb, s)" by (cases c) auto
  show ?case
  proof (cases first)
    case True
    obtain pa' s' where r: "resume (ea, file_id, na) pa s = (pa', s')" by force
    with Cons.prems c have "accounted file_id s0 s'"
      using resume_accounted by auto
    then have "accounted file_id s0
        (snd (snd (interleave (ea, file_id, na) (eb, file_id, nb) schedule (pa', pb, s'))))"
      using Cons.IH [OF Cons.prems(1,2), of "(pa', pb, s')"] by simp
    with True c r show ?thesis by simp
  next
    case False
    obtain pb' s' where r: "resume (eb, file_id, nb) pb s = (pb', s')" by force
    with Cons.prems c have "accounted file_id s0 s'"
      using resume_accounted by auto
    then have "accounted file_id s0
        (snd (snd (interleave (ea, file_id, na) (eb, file_id, nb) schedule (pa, pb', s'))))"
      using Cons.IH [OF Cons.prems(1,2), of "(pa, pb', s')"] by simp
    with False c r show ?thesis by simp
  qed
qed

lemma exclusive_start: "rows_of file_id s \<le> 1 \<Longrightarrow> exclusive file_id (Start, Start, s)"
  by (simp add: exclusive_def in_flight_def)

lemma resume_done [simp]: "resume a Done s = (Done, s)"
  by (cases a) auto

lemma before_sleep_detects:
  assumes "file_id \<in> processing_files s \<or> 1 \<le> rows_of file_id s"
  shows "before_sleep e file_id file_name s = (Done, cleanup e file_id file_name s)"
proof (cases "file_id \<in> processing_files s")
  case True
  then show ?thesis by (simp add: before_sleep_def)
next
  case False
  with assms have "rows_of file_id s \<noteq> 0" by simp
  then obtain existing where
    "find (\<lambda>r. pf_file_id r = file_id) (processed_files s) = Some existing"
    using find_rows_of [of file_id s] by (cases "find (\<lambda>r. pf_file_id r = file_id) (processed_files s)") auto
  with False show ?thesis
    by (simp add: before_sleep_def cleanup_def Let_def)
qed

lemma process_file_detects:
  "file_id \<in> processing_files s \<or> 1 \<le> rows_of file_id s \<Longrightarrow>
   process_file e file_id file_name s = cleanup e file_id file_name s"
  by (simp add: process_file_def before_sleep_detects)

lemma resume_three_times:
  "\<exists>p1 s1 p2 s2. resume a Start s = (p1, s1) \<and> resume a p1 s1 = (p2, s2) \<and>
     resume a p2 s2 = (Done, process_file (fst a) (fst (snd a)) (snd (snd a)) s)"
proof -
  obtain e f n where a: "a = (e, f, n)" by (cases a) auto
  obtain p1 s1 where 1: "resume a Start s = (p1, s1)" by force
  obtain p2 s2 where 2: "resume a p1 s1 = (p2, s2)" by force
  obtain p3 s3 where 3: "resume a p2 s2 = (p3, s3)" by force
  have p1: "p1 = Sleeping \<or> p1 = Done"
    using 1 a by (auto simp: before_sleep_def Let_def split: if_splits option.splits)
  have p2: "p2 = Uploading \<or> p2 = Done"
    using 2 a p1 by (auto simp: before_upload_def split: prod.splits if_splits)
  have p3: "p3 = Done"
    using 3 a p2 by (auto simp: after_upload_def Let_def split: if_splits)
  have "process_file e f n s = s3"
    using 1 2 3 a by (simp add: process_file_def)
  with 1 2 3 p3 a show ?thesis by simp
qed

lemma sequential_schedule:
  "interleave a b [True, True, True, False, False, False] (Start, Start, s) =
     (Done, Done,
      process_file (fst b) (fst (snd b)) (snd (snd b))
        (process_file (fst a) (fst (snd a)) (snd (snd a)) s))"
proof -
  obtain p1 s1 p2 s2 where a: "resume a Start s = (p1, s1)" "resume a p1 s1 = (p2, s2)"
      "resume a p2 s2 = (Done, process_file (fst a) (fst (snd a)) (snd (snd a)) s)"
    using resume_three_times by blast
  let ?s = "process_file (fst a) (fst (snd a)) (snd (snd a)) s"
  obtain q1 t1 q2 t2 where b: "resume b Start ?s = (q1, t1)" "resume b q1 t1 = (q2, t2)"
      "resume b q2 t2 = (Done, process_file (fst b) (fst (snd b)) (snd (snd b)) ?s)"
    using resume_three_times by blast
  from a b show ?thesis by simp
qed

lemma process_file_succeeds:
  assumes "file_id \<notin> processing_files s" and "rows_of file_id s = 0"
    and "\<not> query_raises e" and "download e = Downloaded"
    and "\<not> falsy (fst (upload_file (dify e) 3))" and "commit_ok e"
  shows "rows_of file_id (process_file e file_id file_name s) = 1"
    and "uploads_of file_id (process_file e file_id file_name s) = uploads_of file_id s + 1"
proof -
  from assms(2) have "find (\<lambda>r. pf_file_id r = file_id) (processed_files s) = None"
    by (simp add: find_rows_of)
  with assms have "process_file e file_id file_name s =
      cleanup e file_id file_name
        (s\<lparr>processing_files := insert file_id (processing_files s),
           temp_files := (temp_files s)(temp_path_of file_name \<mapsto> Complete file_id),
           upload_calls := upload_calls s @ [(file_id, fst (upload_file (dify e) 3))],
           processed_files := processed_files s @
             [\<lparr>pf_file_id = file_id, pf_file_name = file_name\<rparr>]\<rparr>)"
    by (simp add: process_file_def before_sleep_def before_upload_def download_file_def
        after_upload_def Let_def)
  with assms show "rows_of file_id (process_file e file_id file_name s) = 1"
    and "uploads_of file_id (process_file e file_id file_name s) = uploads_of file_id s + 1"
    by simp_all
qed

lemma progressing_swap: "progressing file_id (pa, pb, s) = progressing file_id (pb, pa, s)"
  by (auto simp: progressing_def)

lemma before_sleep_progressing:
  assumes "progressing file_id (Start, pb, s)" and "succeeds e"
    and "before_sleep e file_id n s = (pa', s')"
  shows "progressing file_id (pa', pb, s')"
proof (cases "file_id \<in> processing_files s")
  case True
  with assms show ?thesis
    by (cases pb) (auto simp: before_sleep_def progressing_def in_flight_def)
next
  case False
  show ?thesis
  proof (cases "find (\<lambda>r. pf_file_id r = file_id) (processed_files s)")
    case None
    with False assms show ?thesis
      by (auto simp: before_sleep_def progressing_def in_flight_def succeeds_def)
  next
    case (Some existing)
    then have "rows_of file_id s \<noteq> 0"
      using find_rows_of [of file_id s] by simp
    with Some False assms show ?thesis
      by (auto simp: before_sleep_def progressing_def in_flight_def succeeds_def)
  qed
qed

lemma before_upload_progressing:
  assumes "succeeds e" and "before_upload e file_id n s = (pa', s')"
  shows "progressing file_id (pa', pb, s')"
  using assms
  by (auto simp: before_upload_def download_file_def progressing_def in_flight_def succeeds_def)

lemma after_upload_progressing:
  assumes "succeeds e" and "after_upload e file_id n s = (pa', s')"
  shows "progressing file_id (pa', pb, s')"
  using assms
  by (auto simp: after_upload_def Let_def progressing_def succeeds_def)

lemma resume_progressing:
  assumes "progressing file_id (pa, pb, s)" and "succeeds e"
    and "resume (e, file_id, n) pa s = (pa', s')"
  shows "progressing file_id (pa', pb, s')"
proof (cases pa)
  case Start
  with assms show ?thesis by (auto intro: before_sleep_progressing)
next
  case Sleeping
  with assms show ?thesis by (auto intro: before_upload_progressing)
next
  case Uploading
  with assms show ?thesis by (auto intro: after_upload_progressing)
next
  case Done
  with assms show ?thesis by auto
qed

lemma interleave_progressing:
  "succeeds ea \<Longrightarrow> succeeds eb \<Longrightarrow> progressing file_id c \<Longrightarrow>
   progressing file_id (interleave (ea, file_id, na) (eb, file_id, nb) schedule c)"
proof (induction schedule arbitrary: c)
  case Nil
  then show ?case by simp
next
  case (Cons first schedule)
  obtain pa pb s where c: "c = (pa, pb, s)" by (cases c) auto
  show ?case
  proof (cases first)
    case True
    obtain pa' s' where r: "resume (ea, file_id, na) pa s = (pa', s')" by force
    with Cons.prems c have "progressing file_id (pa', pb, s')"
      using resume_progressing by blast
    with Cons.prems(1,2)
    have "progressing file_id (interleave (ea, file_id, na) (eb, file_id, nb) schedule (pa', pb, s'))"
      by (rule Cons.IH)
    with True c r show ?thesis by simp
  next
    case False
    obtain pb' s' where r: "resume (eb, file_id, nb) pb s = (pb', s')" by force
    from Cons.prems c have "progressing file_id (pb, pa, s)"
      by (simp add: progressing_swap)
    with r Cons.prems(2) have "progressing file_id (pb', pa, s')"
      using resume_progressing by blast
    then have "progressing file_id (pa, pb', s')"
      by (simp add: progressing_swap)
    with Cons.prems(1,2)
    have "progressing file_id (interleave (ea, file_id, na) (eb, file_id, nb) schedule (pa, pb', s'))"
      by (rule Cons.IH)
    with False c r show ?thesis by simp
  qed
qed

lemma completed_exactly_one:
  assumes "rows_of file_id s \<le> 1" and "succeeds ea" and "succeeds eb"
    and "interleave (ea, file_id, na) (eb, file_id, nb) schedule (Start, Start, s) = (Done, Done, s')"
  shows "rows_of file_id s' = 1"
    and "uploads_of file_id s' + rows_of file_id s = uploads_of file_id s + 1"
proof -
  have "progressing file_id (Start, Start, s)"
    by (simp add: progressing_def)
  with assms(2,3)
  have "progressing file_id (interleave (ea, file_id, na) (eb, file_id, nb) schedule (Start, Start, s))"
    by (rule interleave_progressing)
  with assms(4) have ge: "1 \<le> rows_of file_id s'"
    by (simp add: progressing_def in_flight_def)
  from assms(1) have "exclusive file_id (Start, Start, s)"
    by (rule exclusive_start)
  then have "exclusive file_id (interleave (ea, file_id, na) (eb, file_id, nb) schedule (Start, Start, s))"
    by (rule interleave_exclusive)
  with assms(4) have "rows_of file_id s' \<le> 1"
    by (simp add: exclusive_def)
  with ge show one: "rows_of file_id s' = 1" by simp
  have "accounted file_id s (snd (snd (Start, Start, s)))"
    by (simp add: accounted_def)
  with assms(2,3) have "accounted file_id s
      (snd (snd (interleave (ea, file_id, na) (eb, file_id, nb) schedule (Start, Start, s))))"
    using interleave_accounted by (simp add: succeeds_def)
  with assms(4) one show "uploads_of file_id s' + rows_of file_id s = uploads_of file_id s + 1"
    by (simp add: accounted_def)
qed

text \<open>
  Claim C3, as the code has it. Two runs of the pipeline for one file id, resumed in any
  order at their suspension points, from a store with at most one row for the file id,
  leave at most one row for it; and when no commit fails, at most one of their upload
  calls returns a document id. When both runs succeed and both have ended, whatever the
  order in which they were resumed, the store has exactly one row for the file id, and
  exactly one upload call has returned an id if there was no row before (none if there
  was one). Running one after the other is the schedule that resumes the first run three
  times and then the second. A run that starts when the file id is in the in-flight set or
  a row for it exists inserts nothing and uploads nothing. When the first of two runs, one
  after the other, passes its download, its upload and its commit, the store has exactly
  one row for the file id afterwards and exactly one upload call has returned an id,
  whatever happens to the second.
\<close>

theorem two_runs_idempotent:
  "(rows_of file_id s \<le> 1 \<and>
    interleave (ea, file_id, na) (eb, file_id, nb) schedule (Start, Start, s) = (pa, pb, s')
    \<longrightarrow> rows_of file_id s' \<le> 1 \<and>
        (commit_ok ea \<and> commit_ok eb \<longrightarrow> uploads_of file_id s' \<le> uploads_of file_id s + 1)) \<and>
   (rows_of file_id s \<le> 1 \<and> succeeds ea \<and> succeeds eb \<and>
    interleave (ea, file_id, na) (eb, file_id, nb) schedule (Start, Start, s) = (Done, Done, t)
    \<longrightarrow> rows_of file_id t = 1 \<and>
        uploads_of file_id t + rows_of file_id s = uploads_of file_id s + 1) \<and>
   interleave (ea, file_id, na) (eb, file_id, nb) [True, True, True, False, False, False]
       (Start, Start, s)
     = (Done, Done, process_file eb file_id nb (process_file ea file_id na s)) \<and>
   (file_id \<in> processing_files s \<or> 1 \<le> rows_of file_id s
    \<longrightarrow> processed_files (process_file ea file_id na s) = processed_files s \<and>
        upload_calls (process_file ea file_id na s) = upload_calls s) \<and>
   (file_id \<notin> processing_files s \<and> rows_of file_id s = 0 \<and> \<not> query_raises ea \<and>
    download ea = Downloaded \<and> \<not> falsy (fst (upload_file (dify ea) 3)) \<and> commit_ok ea
    \<longrightarrow> rows_of file_id (process_file eb file_id nb (process_file ea file_id na s)) = 1 \<and>
        uploads_of file_id (process_file eb file_id nb (process_file ea file_id na s))
          = uploads_of file_id s + 1)"
proof (intro conjI impI)
  assume a: "rows_of file_id s \<le> 1 \<and>
    interleave (ea, file_id, na) (eb, file_id, nb) schedule (Start, Start, s) = (pa, pb, s')"
  then have "exclusive file_id (Start, Start, s)"
    by (simp add: exclusive_start)
  then have "exclusive file_id (interleave (ea, file_id, na) (eb, file_id, nb) schedule (Start, Start, s))"
    by (rule interleave_exclusive)
  with a show rows: "rows_of file_id s' \<le> 1"
    by (simp add: exclusive_def)
  assume ok: "commit_ok ea \<and> commit_ok eb"
  have "accounted file_id s (snd (snd (Start, Start, s)))"
    by (simp add: accounted_def)
  with ok have "accounted file_id s
      (snd (snd (interleave (ea, file_id, na) (eb, file_id, nb) schedule (Start, Start, s))))"
    using interleave_accounted by blast
  with a have "uploads_of file_id s' + rows_of file_id s = uploads_of file_id s + rows_of file_id s'"
    by (simp add: accounted_def)
  with rows show "uploads_of file_id s' \<le> uploads_of file_id s + 1"
    by simp
next
  assume b: "rows_of file_id s \<le> 1 \<and> succeeds ea \<and> succeeds eb \<and>
    interleave (ea, file_id, na) (eb, file_id, nb) schedule (Start, Start, s) = (Done, Done, t)"
  then show "rows_of file_id t = 1"
    using completed_exactly_one(1) [of file_id s ea eb na nb schedule t] by simp
  from b show "uploads_of file_id t + rows_of file_id s = uploads_of file_id s + 1"
    using completed_exactly_one(2) [of file_id s ea eb na nb schedule t] by simp
next
  show "interleave (ea, file_id, na) (eb, file_id, nb) [True, True, True, False, False, False]
       (Start, Start, s)
     = (Done, Done, process_file eb file_id nb (process_file ea file_id na s))"
    using sequential_schedule [of "(ea, file_id, na)" "(eb, file_id, nb)" s] by simp
next
  assume d: "file_id \<in> processing_files s \<or> 1 \<le> rows_of file_id s"
  then have c: "process_file ea file_id na s = cleanup ea file_id na s"
    by (rule process_file_detects)
  show "processed_files (process_file ea file_id na s) = processed_files s"
    by (simp add: c)
  show "upload_calls (process_file ea file_id na s) = upload_calls s"
    by (simp add: c)
next
  assume g: "file_id \<notin> processing_files s \<and> rows_of file_id s = 0 \<and> \<not> query_raises ea \<and>
    download ea = Downloaded \<and> \<not> falsy (fst (upload_file (dify ea) 3)) \<and> commit_ok ea"
  then have 1: "rows_of file_id (process_file ea file_id na s) = 1"
    and 2: "uploads_of file_id (process_file ea file_id na s) = uploads_of file_id s + 1"
    using process_file_succeeds [of file_id s ea na] by simp_all
  from 1 have "process_file eb file_id nb (process_file ea file_id na s) =
      cleanup eb file_id nb (process_file ea file_id na s)"
    by (simp add: process_file_detects)
  with 1 2 show "rows_of file_id (process_file eb file_id nb (process_file ea file_id na s)) = 1"
    and "uploads_of file_id (process_file eb file_id nb (process_file ea file_id na s))
          = uploads_of file_id s + 1"
    by simp_all
qed

lemma calm_upload:
  "upload_file (\<lambda>attempt. Response 200 (Object (Some ''doc-1''))) 3 = (Some ''doc-1'', 1)"
  by (simp add: upload_file_first_time)

theorem two_runs_idempotent_witness:
  "rows_of ''file-1'' initial = 0 \<and> ''file-1'' \<notin> processing_files initial \<and>
   commit_ok calm \<and> download calm = Downloaded \<and> succeeds calm \<and>
   interleave (calm, ''file-1'', ''a.txt'') (calm, ''file-1'', ''a.txt'')
       [True, False, True, True] (Start, Start, initial)
     = (Done, Done,
        initial\<lparr>processed_files := [\<lparr>pf_file_id = ''file-1'', pf_file_name = ''a.txt''\<rparr>],
                upload_calls := [(''file-1'', Some ''doc-1'')]\<rparr>) \<and>
   rows_of ''file-1''
     (initial\<lparr>processed_files := [\<lparr>pf_file_id = ''file-1'', pf_file_name = ''a.txt''\<rparr>],
              upload_calls := [(''file-1'', Some ''doc-1'')]\<rparr>) \<le> 1 \<and>
   uploads_of ''file-1''
     (initial\<lparr>processed_files := [\<lparr>pf_file_id = ''file-1'', pf_file_name = ''a.txt''\<rparr>],
              upload_calls := [(''file-1'', Some ''doc-1'')]\<rparr>) \<le> uploads_of ''file-1'' initial + 1 \<and>
   rows_of ''file-1''
     (initial\<lparr>processed_files := [\<lparr>pf_file_id = ''file-1'', pf_file_name = ''a.txt''\<rparr>],
              upload_calls := [(''file-1'', Some ''doc-1'')]\<rparr>) = 1 \<and>
   uploads_of ''file-1''
     (initial\<lparr>processed_files := [\<lparr>pf_file_id = ''file-1'', pf_file_name = ''a.txt''\<rparr>],
              upload_calls := [(''file-1'', Some ''doc-1'')]\<rparr>) + rows_of ''file-1'' initial
     = uploads_of ''file-1'' initial + 1 \<and>
   rows_of ''file-1''
     (process_file calm ''file-1'' ''a.txt'' (process_file calm ''file-1'' ''a.txt'' initial)) = 1 \<and>
   uploads_of ''file-1''
     (process_file calm ''file-1'' ''a.txt'' (process_file calm ''file-1'' ''a.txt'' initial))
     = uploads_of ''file-1'' initial + 1"
proof -
  have i: "interleave (calm, ''file-1'', ''a.txt'') (calm, ''file-1'', ''a.txt'')
       [True, False, True, True] (Start, Start, initial)
     = (Done, Done,
        initial\<lparr>processed_files := [\<lparr>pf_file_id = ''file-1'', pf_file_name = ''a.txt''\<rparr>],
                upload_calls := [(''file-1'', Some ''doc-1'')]\<rparr>)"
    by (simp add: before_sleep_def before_upload_def download_file_def after_upload_def
        calm_upload falsy_def cleanup_def Let_def calm_def initial_def)
  have h: "rows_of ''file-1'' initial = 0" "''file-1'' \<notin> processing_files initial"
    "commit_ok calm" "download calm = Downloaded" "\<not> query_raises calm"
    "\<not> falsy (fst (upload_file (dify calm) 3))"
    by (simp_all add: initial_def rows_of_def calm_def calm_upload falsy_def)
  have g: "succeeds calm"
    using h by (simp add: succeeds_def)
  show ?thesis
    using i h g two_runs_idempotent [where file_id = "''file-1''" and s = initial
        and ea = calm and na = "''a.txt''" and eb = calm and nb = "''a.txt''"
        and schedule = "[True, False, True, True]" and pa = Done and pb = Done
        and s' = "initial\<lparr>processed_files := [\<lparr>pf_file_id = ''file-1'', pf_file_name = ''a.txt''\<rparr>],
                 upload_calls := [(''file-1'', Some ''doc-1'')]\<rparr>"
        and t = "initial\<lparr>processed_files := [\<lparr>pf_file_id = ''file-1'', pf_file_name = ''a.txt''\<rparr>],
                 upload_calls := [(''file-1'', Some ''doc-1'')]\<rparr>"]
    by simp
qed

text \<open>
  The claim as stated fails in both of its parts. When the download breaks off in both
  runs, no row exists afterwards. When the commit of the first run fails after its upload
  has succeeded, the second run uploads the file again: two upload calls return an id.
\<close>

theorem two_runs_counterexample:
  "rows_of ''file-1''
     (process_file interrupted ''file-1'' ''a.txt''
        (process_file interrupted ''file-1'' ''a.txt'' initial)) = 0 \<and>
   uploads_of ''file-1''
     (process_file calm ''file-1'' ''a.txt''
        (process_file (calm\<lparr>commit_ok := False\<rparr>) ''file-1'' ''a.txt'' initial)) = 2"
  by (simp add: process_file_def before_sleep_def before_upload_def download_file_def
      after_upload_def calm_upload falsy_def cleanup_def Let_def calm_def interrupted_def
      initial_def rows_of_def uploads_of_def del: rows_of_fold uploads_of_fold)

section \<open>Properties of the setup operation\<close>

lemma fold_max_ge: "m \<le> fold max xs (m::nat)"
  by (induction xs arbitrary: m) (auto intro: order_trans [OF max.cobounded2])

lemma fold_max_mem: "x \<in> set xs \<Longrightarrow> x \<le> fold max xs (m::nat)"
proof (induction xs arbitrary: m)
  case Nil
  then show ?case by simp
next
  case (Cons a xs)
  show ?case
  proof (cases "x = a")
    case True
    have "a \<le> max a m" by simp
    also have "\<dots> \<le> fold max xs (max a m)" by (rule fold_max_ge)
    finally show ?thesis using True by simp
  next
    case False
    with Cons show ?thesis by simp
  qed
qed

lemma next_id_fresh: "next_id table \<notin> nc_id ` set table"
proof
  assume "next_id table \<in> nc_id ` set table"
  then have "next_id table \<in> set (map nc_id table)" by simp
  then have "next_id table \<le> fold max (map nc_id table) 0" by (rule fold_max_mem)
  then show False by (simp add: next_id_def)
qed

text \<open>
  Claim C9. When the service is initialised, the folder is accessible, the watch is
  granted and the commit succeeds, the operation returns the channel and the table has
  exactly one more row, which carries the channel under a key not used before. When any of
  the four fails, the operation raises the \<open>HTTPException\<close> with status 500 and the state
  is the one before the call: no row is persisted.
\<close>

theorem setup_all_or_nothing:
  "(service_ready api \<and> folder_accessible api \<and> watch api = Some (ident, expires) \<and> store_ok
    \<longrightarrow> setup_monitoring api store_ok folder s =
          (Inr (''Monitoring setup successfully'',
                \<lparr>channel_id = ident, folder_id = folder, expiration = expires\<rparr>),
           s\<lparr>notification_channels := notification_channels s @
                [\<lparr>nc_id = next_id (notification_channels s), nc_channel_id = ident,
                  nc_folder_id = folder, nc_expiration = expires\<rparr>]\<rparr>) \<and>
        next_id (notification_channels s) \<notin> nc_id ` set (notification_channels s)) \<and>
   (\<not> service_ready api \<or> \<not> folder_accessible api \<or> watch api = None \<or> \<not> store_ok
    \<longrightarrow> (\<exists>detail. setup_monitoring api store_ok folder s = (Inl (HTTPException 500 detail), s)))"
  by (auto simp: setup_monitoring_def setup_watch_def channel_row_def next_id_fresh
      split: option.splits)

theorem setup_all_or_nothing_witness:
  "service_ready granting \<and> folder_accessible granting \<and>
   watch granting = Some (''channel-2'', 604800000) \<and>
   setup_monitoring granting True ''folder-2'' watched =
     (Inr (''Monitoring setup successfully'',
           \<lparr>channel_id = ''channel-2'', folder_id = ''folder-2'', expiration = 604800000\<rparr>),
      watched\<lparr>notification_channels := notification_channels watched @
           [\<lparr>nc_id = 2, nc_channel_id = ''channel-2'', nc_folder_id = ''folder-2'',
             nc_expiration = 604800000\<rparr>]\<rparr>) \<and>
   setup_monitoring granting False ''folder-2'' watched =
     (Inl (HTTPException 500 ''commit failed''), watched) \<and>
   watch (granting\<lparr>watch := None\<rparr>) = None \<and>
   setup_monitoring (granting\<lparr>watch := None\<rparr>) True ''folder-2'' watched =
     (Inl (HTTPException 500 ''watch request failed''), watched)"
  using setup_all_or_nothing [of granting "''channel-2''" 604800000 True "''folder-2''" watched]
    setup_all_or_nothing [of granting "''channel-2''" 604800000 False "''folder-2''" watched]
    setup_all_or_nothing [of "granting\<lparr>watch := None\<rparr>" "''channel-2''" 604800000 True "''folder-2''" watched]
  by (simp add: granting_def watched_def initial_def next_id_def setup_monitoring_def
      setup_watch_def)

section \<open>Properties of the channel renewal loop\<close>

lemma renewal_key [simp]: "nc_id (renewal e c) = nc_id c"
  by (simp add: renewal_def split: sum.splits)

lemma same_key_same_row:
  "distinct (map nc_id table) \<Longrightarrow> r \<in> set table \<Longrightarrow> c \<in> set table \<Longrightarrow>
   nc_id r = nc_id c \<Longrightarrow> r = c"
  by (meson distinct_map inj_on_eq_iff)

text \<open>
  As long as no store update fails, the loop goes on after every channel, and what it
  makes of the row is the \<open>renewal\<close> of that row.
\<close>

lemma renew_one_map:
  assumes "distinct (map nc_id table)" and "c \<in> set table" and "store e (nc_id c)"
  shows "renew_one e c table = (True, map (\<lambda>r. if r = c then renewal e c else r) table)"
proof (cases "setup_watch (provider e (nc_id c)) (nc_folder_id c)")
  case (Inl message)
  then have "renewal e c = c" by (simp add: renewal_def)
  then have "map (\<lambda>r. if r = c then renewal e c else r) table = table"
    by (simp add: map_idI)
  with Inl show ?thesis by (simp add: renew_one_def)
next
  case (Inr new_channel)
  with assms(3) have r: "renewal e c = renewed new_channel c"
    by (simp add: renewal_def renewed_def)
  have "map (\<lambda>r. if nc_id r = nc_id c then renewed new_channel r else r) table =
        map (\<lambda>r. if r = c then renewal e c else r) table"
  proof (rule map_cong [OF refl])
    fix x assume "x \<in> set table"
    with assms(1,2) have "nc_id x = nc_id c \<longleftrightarrow> x = c"
      using same_key_same_row by blast
    then show "(if nc_id x = nc_id c then renewed new_channel x else x) =
               (if x = c then renewal e c else x)"
      by (simp add: r)
  qed
  with Inr assms(3) show ?thesis by (simp add: renew_one_def)
qed

lemma renew_loop_map:
  assumes "distinct (map nc_id table)" and "set cs \<subseteq> set table" and "distinct cs"
    and "\<forall>c \<in> set cs. store e (nc_id c)"
  shows "renew_loop e cs table = map (\<lambda>r. if r \<in> set cs then renewal e r else r) table"
  using assms
proof (induction cs arbitrary: table)
  case Nil
  then show ?case by simp
next
  case (Cons c cs)
  let ?step = "\<lambda>r. if r = c then renewal e c else r"
  let ?table = "map ?step table"
  from Cons.prems have c: "c \<in> set table" and cs: "set cs \<subseteq> set table"
    and fresh: "c \<notin> set cs" and dcs: "distinct cs"
    and ok: "store e (nc_id c)" and oks: "\<forall>c \<in> set cs. store e (nc_id c)"
    by auto
  have one: "renew_one e c table = (True, ?table)"
    using Cons.prems(1) c ok by (rule renew_one_map)
  have keys: "map nc_id ?table = map nc_id table"
    by (simp add: comp_def if_distrib [of nc_id] cong: if_cong)
  have d: "distinct (map nc_id ?table)"
    using Cons.prems(1) by (subst keys)
  have sub: "set cs \<subseteq> set ?table"
  proof
    fix x assume x: "x \<in> set cs"
    with fresh have "x \<noteq> c" by auto
    then have "?step x = x" by simp
    moreover from x cs have "x \<in> set table" by auto
    ultimately show "x \<in> set ?table" by force
  qed
  have not_later: "renewal e c \<notin> set cs"
  proof
    assume a: "renewal e c \<in> set cs"
    with cs have "renewal e c \<in> set table" by auto
    with Cons.prems(1) c have "renewal e c = c"
      using same_key_same_row [of table "renewal e c" c] by simp
    with a fresh show False by simp
  qed
  have "renew_loop e (c # cs) table = renew_loop e cs ?table"
    by (simp add: one)
  also have "\<dots> = map (\<lambda>r. if r \<in> set cs then renewal e r else r) ?table"
    using d sub dcs oks by (rule Cons.IH)
  also have "\<dots> = map (\<lambda>r. if r \<in> set (c # cs) then renewal e r else r) table"
    using not_later by (auto simp: comp_def)
  finally show ?case .
qed

text \<open>
  Re-registration failures alone do not stop a run: when the query and every store update
  succeed, each expiring row ends as its renewal, whatever happens to the other rows, and a
  row whose re-registration fails is unchanged.
\<close>

lemma registration_failures_isolated:
  assumes "query_ok e" and "distinct (map nc_id (notification_channels s))"
    and "\<forall>c \<in> set (notification_channels s). store e (nc_id c)"
  shows "notification_channels (renew_channels e s) =
     map (\<lambda>c. if nc_expiration c \<le> utcnow e + six_hours then renewal e c else c)
       (notification_channels s)"
proof -
  let ?table = "notification_channels s"
  have "distinct ?table"
    using assms(2) by (simp add: distinct_map)
  then have "distinct (expiring (utcnow e) ?table)"
    by (simp add: expiring_def)
  moreover have "set (expiring (utcnow e) ?table) \<subseteq> set ?table"
    by (auto simp: expiring_def)
  moreover have "\<forall>c \<in> set (expiring (utcnow e) ?table). store e (nc_id c)"
    using assms(3) by (simp add: expiring_def)
  ultimately have "renew_loop e (expiring (utcnow e) ?table) ?table =
      map (\<lambda>r. if r \<in> set (expiring (utcnow e) ?table) then renewal e r else r) ?table"
    using assms(2) by (simp add: renew_loop_map)
  also have "\<dots> = map (\<lambda>c. if nc_expiration c \<le> utcnow e + six_hours then renewal e c else c) ?table"
    by (rule map_cong [OF refl]) (simp add: expiring_def)
  finally show ?thesis
    using assms(1) by (simp add: renew_channels_def)
qed

lemma registration_failure_example:
  "notification_channels (renew_channels second_fails three_channels) =
     [\<lparr>nc_id = 1, nc_channel_id = ''channel-4'', nc_folder_id = ''folder-1'',
       nc_expiration = 604800000\<rparr>,
      \<lparr>nc_id = 2, nc_channel_id = ''channel-2'', nc_folder_id = ''folder-2'', nc_expiration = 0\<rparr>,
      \<lparr>nc_id = 3, nc_channel_id = ''channel-5'', nc_folder_id = ''folder-3'',
       nc_expiration = 604800000\<rparr>]"
  by (simp add: renew_channels_def expiring_def renew_one_def renewed_def setup_watch_def
      second_fails_def three_channels_def initial_def six_hours_def)

text \<open>
  Claim C7, evaluated where the code departs from it. Three channels expire; every
  re-registration is granted; the store update of the second channel fails. The first
  channel is renewed. The second row is unchanged, as the claim says. But the exception
  raised inside the \<open>except\<close> branch ends the loop: the third channel, whose
  re-registration and store update would both succeed, is never visited and keeps its old
  \<open>channel_id\<close> and \<open>expiration\<close>.
\<close>

theorem renewal_stops_at_failed_commit:
  "notification_channels (renew_channels second_commit_fails three_channels) =
     [\<lparr>nc_id = 1, nc_channel_id = ''channel-4'', nc_folder_id = ''folder-1'',
       nc_expiration = 604800000\<rparr>,
      \<lparr>nc_id = 2, nc_channel_id = ''channel-2'', nc_folder_id = ''folder-2'', nc_expiration = 0\<rparr>,
      \<lparr>nc_id = 3, nc_channel_id = ''channel-3'', nc_folder_id = ''folder-3'', nc_expiration = 0\<rparr>] \<and>
   setup_watch (provider second_commit_fails 3) ''folder-3'' =
     Inr \<lparr>channel_id = ''channel-6'', folder_id = ''folder-3'', expiration = 604800000\<rparr> \<and>
   store second_commit_fails 3"
  by (simp add: renew_channels_def expiring_def renew_one_def renewed_def setup_watch_def
      second_commit_fails_def three_channels_def initial_def six_hours_def)

end
